theory Spec2Isabelle
  imports Main "HOL-Library.Sublist"
begin

section \<open>The movie store of main.py\<close>

text \<open>
  main.py holds an earlier draft of the application (its first hundred lines, cut off inside
  \<^verbatim>\<open>delete_movie\<close>, whose last three lines end the file) and, pasted into it, the complete
  application, which rebinds \<^verbatim>\<open>app\<close>, the three models, \<^verbatim>\<open>movie_db\<close>,
  \<^verbatim>\<open>movie_id_counter\<close> and the five route functions. The definitions below follow the
  complete application: the models with their \<^verbatim>\<open>Field\<close> constraints and the five
  functions registered on the final \<^verbatim>\<open>app\<close>.

  Python's \<^verbatim>\<open>str\<close> is a sequence of code points: a string is a list over a type \<open>'c\<close> of
  characters. Python's \<^verbatim>\<open>int\<close> is unbounded: \<open>int\<close>.
\<close>

subsection \<open>Data model\<close>

text \<open>
  \<^verbatim>\<open>class Movie(BaseModel)\<close> with fields title, playtime, genre;
  \<^verbatim>\<open>class MovieDB(Movie)\<close> adds \<^verbatim>\<open>id: int\<close> (the field is named \<open>id_no\<close> here, \<open>id\<close> being
  the identity function of HOL). \<^verbatim>\<open>MovieUpdate\<close> declares the same three fields with the
  same constraints as \<^verbatim>\<open>Movie\<close>.
\<close>

record 'c Movie =
  title :: "'c list"
  playtime :: int
  genre :: "'c list"

type_synonym 'c MovieUpdate = "'c Movie"

record 'c MovieDB = "'c Movie" +
  id_no :: int

text \<open>The two module-level variables \<^verbatim>\<open>movie_db = []\<close> and \<^verbatim>\<open>movie_id_counter = 0\<close>.\<close>

record 'c state =
  movie_db :: "'c MovieDB list"
  movie_id_counter :: int

definition init_state :: "'c state" where
  "init_state = \<lparr>movie_db = [], movie_id_counter = 0\<rparr>"

text \<open>
  The two ways a request fails: FastAPI answers 422 when a declared parameter does not
  validate (\<open>ValidationError\<close>), and the route functions raise \<^verbatim>\<open>HTTPException\<close> with status
  404 (\<open>NotFoundError\<close>).
\<close>

datatype error = ValidationError | NotFoundError

subsection \<open>Parameter validation\<close>

text \<open>
  \<^verbatim>\<open>title: str = Field(..., min_length=1)\<close>, \<^verbatim>\<open>playtime: int = Field(..., gt=0)\<close>,
  \<^verbatim>\<open>genre: str = Field(..., min_length=2)\<close>, for \<^verbatim>\<open>Movie\<close> and \<^verbatim>\<open>MovieUpdate\<close> alike.
  A value of type \<open>'c Movie\<close> is the request body with its three typed fields; \<open>valid_Movie\<close>
  says that the body passes the constraints.
\<close>

definition valid_Movie :: "'c Movie \<Rightarrow> bool" where
  "valid_Movie movie \<longleftrightarrow>
     1 \<le> length (title movie) \<and> 0 < playtime movie \<and> 2 \<le> length (genre movie)"

text \<open>\<^verbatim>\<open>movie_id: int = Path(..., gt=0)\<close> of the three routes on \<^verbatim>\<open>/movies/{movie_id}\<close>.\<close>

definition valid_movie_id :: "int \<Rightarrow> bool" where
  "valid_movie_id movie_id \<longleftrightarrow> 0 < movie_id"

subsection \<open>Strings\<close>

text \<open>
  \<^verbatim>\<open>a in b\<close> on two strings: \<open>a\<close> occurs in \<open>b\<close> as a contiguous run, at some position.
\<close>

fun str_in :: "'c list \<Rightarrow> 'c list \<Rightarrow> bool" where
  "str_in a [] = (a = [])"
| "str_in a (c # b) = (prefix a (c # b) \<or> str_in a b)"

text \<open>
  The truth value of an \<^verbatim>\<open>Optional[str]\<close> in \<^verbatim>\<open>if title or genre:\<close> and \<^verbatim>\<open>if title:\<close>:
  \<^verbatim>\<open>None\<close> and the empty string are false.
\<close>

fun truthy :: "'c list option \<Rightarrow> bool" where
  "truthy None = False"
| "truthy (Some q) = (q \<noteq> [])"

text \<open>
  \<^verbatim>\<open>str.lower\<close> is Python's Unicode lower-casing, whose tables are not part of the
  repository: the functions below take it as the parameter \<open>lower\<close>. On strings of ASCII
  characters it is \<open>ascii_lower\<close>, which the concrete evaluations use.
\<close>

definition ascii_lower_char :: "char \<Rightarrow> char" where
  "ascii_lower_char c =
     (case map_of (zip ''ABCDEFGHIJKLMNOPQRSTUVWXYZ'' ''abcdefghijklmnopqrstuvwxyz'') c of
        Some l \<Rightarrow> l
      | None \<Rightarrow> c)"

definition ascii_lower :: "string \<Rightarrow> string" where
  "ascii_lower s = map ascii_lower_char s"

subsection \<open>The route functions\<close>

text \<open>
  \<^verbatim>\<open>create_movie\<close>: increment the counter, build the record, append it, return it.
\<close>

definition create_movie :: "'c Movie \<Rightarrow> 'c state \<Rightarrow> 'c MovieDB \<times> 'c state" where
  "create_movie movie s =
     (let counter = movie_id_counter s + 1;
          new_movie = \<lparr>title = title movie, playtime = playtime movie, genre = genre movie,
                       id_no = counter\<rparr>
      in (new_movie, \<lparr>movie_db = movie_db s @ [new_movie], movie_id_counter = counter\<rparr>))"

text \<open>
  \<^verbatim>\<open>get_movies\<close>: the two list comprehensions, each run only for a truthy filter, and the
  fall-back to the whole list when nothing is left. (The two \<^verbatim>\<open>print\<close> calls for the header
  and the cookie do not touch the store and are left out.)
\<close>

definition title_filter :: "('c list \<Rightarrow> 'c list) \<Rightarrow> 'c list \<Rightarrow> 'c MovieDB list \<Rightarrow> 'c MovieDB list" where
  "title_filter lower q ms = [m \<leftarrow> ms. str_in (lower q) (lower (title m))]"

definition genre_filter :: "('c list \<Rightarrow> 'c list) \<Rightarrow> 'c list \<Rightarrow> 'c MovieDB list \<Rightarrow> 'c MovieDB list" where
  "genre_filter lower q ms = [m \<leftarrow> ms. str_in (lower q) (lower (genre m))]"

definition get_movies ::
  "('c list \<Rightarrow> 'c list) \<Rightarrow> 'c list option \<Rightarrow> 'c list option \<Rightarrow> 'c state \<Rightarrow> 'c MovieDB list" where
  "get_movies lower title_q genre_q s =
     (let result = movie_db s in
      if truthy title_q \<or> truthy genre_q then
        (let filtered_movies = result;
             filtered_movies =
               (case title_q of
                  Some q \<Rightarrow> if q \<noteq> [] then title_filter lower q filtered_movies
                            else filtered_movies
                | None \<Rightarrow> filtered_movies);
             filtered_movies =
               (case genre_q of
                  Some q \<Rightarrow> if q \<noteq> [] then genre_filter lower q filtered_movies
                            else filtered_movies
                | None \<Rightarrow> filtered_movies)
         in if filtered_movies \<noteq> [] then filtered_movies else result)
      else result)"

text \<open>\<^verbatim>\<open>get_movie_by_id\<close>: the first record with the id, or 404.\<close>

definition get_movie_by_id :: "int \<Rightarrow> 'c state \<Rightarrow> error + 'c MovieDB" where
  "get_movie_by_id movie_id s =
     (case find (\<lambda>movie. id_no movie = movie_id) (movie_db s) of
        Some movie \<Rightarrow> Inr movie
      | None \<Rightarrow> Inl NotFoundError)"

text \<open>
  \<^verbatim>\<open>update_movie\<close>: \<^verbatim>\<open>for i, movie in enumerate(movie_db)\<close> stops at the first index whose
  record has the id, stores the new record there and returns it; 404 when the loop ends.
\<close>

fun first_index :: "('a \<Rightarrow> bool) \<Rightarrow> 'a list \<Rightarrow> nat option" where
  "first_index P [] = None"
| "first_index P (x # xs) =
     (if P x then Some 0 else map_option Suc (first_index P xs))"

definition update_movie ::
  "'c MovieUpdate \<Rightarrow> int \<Rightarrow> 'c state \<Rightarrow> error + 'c MovieDB \<times> 'c state" where
  "update_movie movie_update movie_id s =
     (case first_index (\<lambda>movie. id_no movie = movie_id) (movie_db s) of
        Some i \<Rightarrow>
          (let updated_movie = \<lparr>title = title movie_update, playtime = playtime movie_update,
                                genre = genre movie_update, id_no = movie_id\<rparr>
           in Inr (updated_movie, s\<lparr>movie_db := (movie_db s)[i := updated_movie]\<rparr>))
      | None \<Rightarrow> Inl NotFoundError)"

text \<open>
  \<^verbatim>\<open>delete_movie\<close>: look for the first record with the id; \<^verbatim>\<open>movie_db.remove\<close> then takes
  out the first element equal to it (pydantic models compare by their fields); 404 when
  there is none.
\<close>

definition delete_movie :: "int \<Rightarrow> 'c state \<Rightarrow> error + 'c state" where
  "delete_movie movie_id s =
     (case find (\<lambda>movie. id_no movie = movie_id) (movie_db s) of
        Some movie_to_delete \<Rightarrow> Inr (s\<lparr>movie_db := remove1 movie_to_delete (movie_db s)\<rparr>)
      | None \<Rightarrow> Inl NotFoundError)"

subsection \<open>Requests\<close>

text \<open>
  The five routes of \<^verbatim>\<open>app\<close>. FastAPI validates the declared parameters of a route
  function and answers 422 without calling it when one of them fails; otherwise the
  function runs. A response carries the record, the list of records, or nothing (204).
\<close>

datatype 'c request =
    POST_movies "'c Movie"
  | GET_movies "'c list option" "'c list option"
  | GET_movie int
  | PUT_movie int "'c MovieUpdate"
  | DELETE_movie int

datatype 'c response =
    Record "'c MovieDB"
  | Records "'c MovieDB list"
  | NoContent

fun handle ::
  "('c list \<Rightarrow> 'c list) \<Rightarrow> 'c request \<Rightarrow> 'c state \<Rightarrow> (error + 'c response) \<times> 'c state" where
  "handle lower (POST_movies movie) s =
     (if valid_Movie movie
      then (let (new_movie, s') = create_movie movie s in (Inr (Record new_movie), s'))
      else (Inl ValidationError, s))"
| "handle lower (GET_movies title_q genre_q) s =
     (Inr (Records (get_movies lower title_q genre_q s)), s)"
| "handle lower (GET_movie movie_id) s =
     (if valid_movie_id movie_id
      then (case get_movie_by_id movie_id s of
              Inr movie \<Rightarrow> (Inr (Record movie), s)
            | Inl e \<Rightarrow> (Inl e, s))
      else (Inl ValidationError, s))"
| "handle lower (PUT_movie movie_id movie_update) s =
     (if valid_Movie movie_update \<and> valid_movie_id movie_id
      then (case update_movie movie_update movie_id s of
              Inr (updated_movie, s') \<Rightarrow> (Inr (Record updated_movie), s')
            | Inl e \<Rightarrow> (Inl e, s))
      else (Inl ValidationError, s))"
| "handle lower (DELETE_movie movie_id) s =
     (if valid_movie_id movie_id
      then (case delete_movie movie_id s of
              Inr s' \<Rightarrow> (Inr NoContent, s')
            | Inl e \<Rightarrow> (Inl e, s))
      else (Inl ValidationError, s))"

text \<open>
  A sequence of requests, served one after the other: the trace pairs each request with
  its outcome, next to the store at the end.
\<close>

fun run ::
  "('c list \<Rightarrow> 'c list) \<Rightarrow> 'c request list \<Rightarrow> 'c state
     \<Rightarrow> ('c request \<times> (error + 'c response)) list \<times> 'c state" where
  "run lower [] s = ([], s)"
| "run lower (r # rs) s =
     (let (out, s') = handle lower r s;
          (tr, s'') = run lower rs s'
      in ((r, out) # tr, s''))"

definition store_after :: "('c list \<Rightarrow> 'c list) \<Rightarrow> 'c request list \<Rightarrow> 'c state" where
  "store_after lower rs = snd (run lower rs init_state)"

text \<open>The ids handed out by the successful creates of a trace, in the order of the trace.\<close>

fun created_ids :: "('c request \<times> (error + 'c response)) list \<Rightarrow> int list" where
  "created_ids [] = []"
| "created_ids ((POST_movies movie, Inr (Record new_movie)) # tr) = id_no new_movie # created_ids tr"
| "created_ids (x # tr) = created_ids tr"

fun successful_create :: "'c request \<times> (error + 'c response) \<Rightarrow> bool" where
  "successful_create (POST_movies movie, Inr out) = True"
| "successful_create x = False"

subsection \<open>Notions of the specification\<close>

text \<open>
  A filter string is a case-insensitive substring of a field when, both lower-cased, the
  first occurs in the second as a contiguous run (\<open>sublist\<close>). A record matches all
  provided filters when every filter that is given is a case-insensitive substring of the
  corresponding field: the title filter of the title, the genre filter of the genre.
\<close>

definition ci_substring :: "('c list \<Rightarrow> 'c list) \<Rightarrow> 'c list \<Rightarrow> 'c list \<Rightarrow> bool" where
  "ci_substring lower q field \<longleftrightarrow> sublist (lower q) (lower field)"

fun matches_filter :: "('c list \<Rightarrow> 'c list) \<Rightarrow> 'c list option \<Rightarrow> 'c list \<Rightarrow> bool" where
  "matches_filter lower None field = True"
| "matches_filter lower (Some q) field = ci_substring lower q field"

definition matches_all ::
  "('c list \<Rightarrow> 'c list) \<Rightarrow> 'c list option \<Rightarrow> 'c list option \<Rightarrow> 'c MovieDB \<Rightarrow> bool" where
  "matches_all lower title_q genre_q m \<longleftrightarrow>
     matches_filter lower title_q (title m) \<and> matches_filter lower genre_q (genre m)"

text \<open>The ids held by the records of the collection.\<close>

definition ids :: "'c state \<Rightarrow> int list" where
  "ids s = map id_no (movie_db s)"

text \<open>
  The invariant of the store: the counter is not negative, along the collection the ids
  increase strictly, and each is positive and at most the counter.
\<close>

definition store_inv :: "'c state \<Rightarrow> bool" where
  "store_inv s \<longleftrightarrow>
     0 \<le> movie_id_counter s \<and> sorted_wrt (<) (ids s) \<and>
     (\<forall>i \<in> set (ids s). 0 < i \<and> i \<le> movie_id_counter s)"

subsection \<open>Sample data\<close>

text \<open>
  The two bodies of the specification's example, and the record a body becomes under an id.
\<close>

definition dune :: "char Movie" where
  "dune = \<lparr>title = ''Dune'', playtime = 155, genre = ''Sci-Fi''\<rparr>"

definition up :: "char Movie" where
  "up = \<lparr>title = ''Up'', playtime = 96, genre = ''Animation''\<rparr>"

definition with_id :: "int \<Rightarrow> 'c Movie \<Rightarrow> 'c MovieDB" where
  "with_id i movie =
     \<lparr>title = title movie, playtime = playtime movie, genre = genre movie, id_no = i\<rparr>"

section \<open>Properties\<close>

lemmas eval_defs = create_movie_def valid_Movie_def valid_movie_id_def get_movie_by_id_def
  update_movie_def delete_movie_def get_movies_def init_state_def Let_def dune_def up_def
  with_id_def store_after_def ids_def title_filter_def genre_filter_def ascii_lower_def
  ascii_lower_char_def

subsection \<open>Searching a string and a list\<close>

lemma str_in_iff: "str_in a b \<longleftrightarrow> (\<exists>pre suf. b = pre @ a @ suf)"
proof (induction b)
  case Nil
  then show ?case by auto
next
  case (Cons c b)
  show ?case
  proof
    assume "str_in a (c # b)"
    then consider "prefix a (c # b)" | "str_in a b" by auto
    then show "\<exists>pre suf. c # b = pre @ a @ suf"
    proof cases
      case 1
      then obtain suf where "c # b = a @ suf" by (auto simp: prefix_def)
      then have "c # b = [] @ a @ suf" by simp
      then show ?thesis by blast
    next
      case 2
      with Cons obtain pre suf where "b = pre @ a @ suf" by blast
      then have "c # b = (c # pre) @ a @ suf" by simp
      then show ?thesis by blast
    qed
  next
    assume "\<exists>pre suf. c # b = pre @ a @ suf"
    then obtain pre suf where eq: "c # b = pre @ a @ suf" by blast
    show "str_in a (c # b)"
    proof (cases pre)
      case Nil
      with eq have "prefix a (c # b)" by (simp add: prefix_def)
      then show ?thesis by simp
    next
      case (Cons p pre')
      with eq have "b = pre' @ a @ suf" by simp
      with Cons.IH have "str_in a b" by blast
      then show ?thesis by simp
    qed
  qed
qed

lemma find_None_first_index: "first_index P xs = None \<longleftrightarrow> find P xs = None"
  by (induction xs) auto

lemma first_index_Some:
  "first_index P xs = Some i \<Longrightarrow> i < length xs \<and> P (xs ! i) \<and> find P xs = Some (xs ! i) \<and> (\<forall>j<i. \<not> P (xs ! j))"
proof (induction xs arbitrary: i)
  case Nil
  then show ?case by simp
next
  case (Cons x xs)
  show ?case
  proof (cases "P x")
    case True
    with Cons.prems show ?thesis by simp
  next
    case False
    with Cons.prems obtain k where k: "first_index P xs = Some k" "i = Suc k" by auto
    from Cons.IH [OF k(1)] False k(2) show ?thesis
      by (auto simp: nth_Cons split: nat.splits)
  qed
qed

lemma str_in_sublist: "str_in a b \<longleftrightarrow> sublist a b"
  by (simp add: str_in_iff sublist_def)

lemma find_id_None: "find (\<lambda>m. id_no m = i) ms = None \<longleftrightarrow> i \<notin> set (map id_no ms)"
  by (induction ms) auto

lemma find_id_Some: "find (\<lambda>m. id_no m = i) ms = Some m \<Longrightarrow> m \<in> set ms \<and> id_no m = i"
  by (induction ms) (auto split: if_splits)

subsection \<open>The store invariant\<close>

lemma store_inv_init: "store_inv init_state"
  by (simp add: store_inv_def ids_def init_state_def)

lemma ids_create:
  "ids (snd (create_movie movie s)) = ids s @ [movie_id_counter s + 1]"
  by (simp add: create_movie_def ids_def Let_def)

lemma counter_create:
  "movie_id_counter (snd (create_movie movie s)) = movie_id_counter s + 1"
  by (simp add: create_movie_def Let_def)

lemma id_create: "id_no (fst (create_movie movie s)) = movie_id_counter s + 1"
  by (simp add: create_movie_def Let_def)

lemma ids_update:
  assumes "update_movie movie_update movie_id s = Inr (u, s')"
  shows "ids s' = ids s \<and> movie_id_counter s' = movie_id_counter s"
proof -
  from assms obtain i where i: "first_index (\<lambda>m. id_no m = movie_id) (movie_db s) = Some i"
    by (auto simp: update_movie_def split: option.splits)
  from first_index_Some [OF i] have lt: "i < length (movie_db s)"
    and idi: "id_no (movie_db s ! i) = movie_id" by auto
  from assms i have s': "s' = s\<lparr>movie_db := (movie_db s)[i := u]\<rparr>" and u: "id_no u = movie_id"
    by (auto simp: update_movie_def Let_def)
  have "map id_no ((movie_db s)[i := u]) = (map id_no (movie_db s))[i := movie_id]"
    by (simp add: map_update u)
  also have "\<dots> = map id_no (movie_db s)"
    using lt idi by (metis list_update_id nth_map)
  finally show ?thesis by (simp add: s' ids_def)
qed

lemma remove1_map_subseq: "subseq (map f (remove1 x xs)) (map f xs)"
  by (induction xs) auto

lemma ids_delete:
  assumes "delete_movie movie_id s = Inr s'"
  shows "subseq (ids s') (ids s) \<and> movie_id_counter s' = movie_id_counter s"
  using assms by (auto simp: delete_movie_def ids_def remove1_map_subseq split: option.splits)

lemma subseq_set_mono: "subseq xs ys \<Longrightarrow> set xs \<subseteq> set ys"
  by (auto elim: list_emb_set)

lemma subseq_sorted_wrt: "subseq xs ys \<Longrightarrow> sorted_wrt R ys \<Longrightarrow> sorted_wrt R xs"
proof (induction rule: list_emb.induct)
  case (list_emb_Nil ys)
  then show ?case by simp
next
  case (list_emb_Cons xs ys y)
  then show ?case by simp
next
  case (list_emb_Cons2 x y xs ys)
  then have "set xs \<subseteq> set ys" by (simp add: subseq_set_mono)
  with list_emb_Cons2 show ?case by auto
qed

text \<open>
  What one request does to the ids of the collection and to the counter: a successful create
  appends the next id, everything else leaves a subsequence of the ids and the counter as
  it was.
\<close>

lemma handle_effect:
  assumes "handle lower r s = (out, s')"
  shows "(successful_create (r, out) \<and> movie_id_counter s' = movie_id_counter s + 1
            \<and> ids s' = ids s @ [movie_id_counter s + 1]
            \<and> created_ids [(r, out)] = [movie_id_counter s + 1])
         \<or> (\<not> successful_create (r, out) \<and> movie_id_counter s' = movie_id_counter s
            \<and> subseq (ids s') (ids s) \<and> created_ids [(r, out)] = [])"
proof (cases r)
  case (POST_movies movie)
  show ?thesis
  proof (cases "valid_Movie movie")
    case True
    with assms POST_movies have "out = Inr (Record (fst (create_movie movie s)))"
      and "s' = snd (create_movie movie s)"
      by (auto split: prod.splits)
    then show ?thesis
      by (simp add: POST_movies ids_create counter_create id_create)
  next
    case False
    with assms POST_movies show ?thesis by auto
  qed
next
  case (GET_movies t g)
  with assms show ?thesis by auto
next
  case (GET_movie i)
  with assms show ?thesis by (auto split: if_splits sum.splits)
next
  case (PUT_movie i mu)
  with assms show ?thesis
    by (auto split: if_splits sum.splits dest: ids_update)
next
  case (DELETE_movie i)
  with assms show ?thesis
    by (auto split: if_splits sum.splits dest: ids_delete)
qed

lemma handle_store_inv:
  assumes "store_inv s"
  shows "store_inv (snd (handle lower r s))"
proof -
  obtain out s' where h: "handle lower r s = (out, s')" by (cases "handle lower r s")
  from handle_effect [OF h] show ?thesis
  proof
    assume a: "successful_create (r, out) \<and> movie_id_counter s' = movie_id_counter s + 1
            \<and> ids s' = ids s @ [movie_id_counter s + 1]
            \<and> created_ids [(r, out)] = [movie_id_counter s + 1]"
    with assms have "store_inv s'"
      unfolding store_inv_def by (simp add: sorted_wrt_append) force
    with h show ?thesis by simp
  next
    assume a: "\<not> successful_create (r, out) \<and> movie_id_counter s' = movie_id_counter s
            \<and> subseq (ids s') (ids s) \<and> created_ids [(r, out)] = []"
    then have sub: "subseq (ids s') (ids s)" by simp
    then have "set (ids s') \<subseteq> set (ids s)" by (rule subseq_set_mono)
    with assms a subseq_sorted_wrt [OF sub] have "store_inv s'"
      by (auto simp: store_inv_def)
    with h show ?thesis by simp
  qed
qed

subsection \<open>Sequences of requests\<close>

lemma run_store_inv: "store_inv s \<Longrightarrow> store_inv (snd (run lower rs s))"
proof (induction rs arbitrary: s)
  case Nil
  then show ?case by simp
next
  case (Cons r rs)
  from Cons.IH [OF handle_store_inv [OF Cons.prems, of lower r]]
  show ?case by (simp add: split_beta Let_def)
qed

lemma store_after_inv: "store_inv (store_after lower rs)"
  unfolding store_after_def by (rule run_store_inv [OF store_inv_init])

lemma run_append:
  "run lower (rs1 @ rs2) s =
     (fst (run lower rs1 s) @ fst (run lower rs2 (snd (run lower rs1 s))),
      snd (run lower rs2 (snd (run lower rs1 s))))"
  by (induction rs1 arbitrary: s) (simp_all add: split_beta Let_def)

lemma run_requests: "map fst (fst (run lower rs s)) = rs"
  by (induction rs arbitrary: s) (simp_all add: split_beta Let_def)

lemma created_ids_append: "created_ids (xs @ ys) = created_ids xs @ created_ids ys"
  by (induction xs rule: created_ids.induct) simp_all

lemma run_counter:
  "movie_id_counter (snd (run lower rs s)) =
     movie_id_counter s + int (length (filter successful_create (fst (run lower rs s))))"
proof (induction rs arbitrary: s)
  case Nil
  then show ?case by simp
next
  case (Cons r rs)
  obtain out s' where h: "handle lower r s = (out, s')" by (cases "handle lower r s")
  from handle_effect [OF h] Cons.IH [of s'] h show ?case
    by (auto simp: split_beta Let_def)
qed

lemma run_created_ids:
  "created_ids (fst (run lower rs s)) =
     [movie_id_counter s + 1 .. movie_id_counter (snd (run lower rs s))]"
proof (induction rs arbitrary: s)
  case Nil
  then show ?case by simp
next
  case (Cons r rs)
  obtain out s' where h: "handle lower r s = (out, s')" by (cases "handle lower r s")
  have tr: "fst (run lower (r # rs) s) = [(r, out)] @ fst (run lower rs s')"
    and fin: "snd (run lower (r # rs) s) = snd (run lower rs s')"
    using h by (simp_all add: split_beta Let_def)
  have mono: "movie_id_counter s' \<le> movie_id_counter (snd (run lower rs s'))"
    by (simp add: run_counter)
  from handle_effect [OF h] show ?case
  proof
    assume a: "successful_create (r, out) \<and> movie_id_counter s' = movie_id_counter s + 1
            \<and> ids s' = ids s @ [movie_id_counter s + 1]
            \<and> created_ids [(r, out)] = [movie_id_counter s + 1]"
    with mono have "[movie_id_counter s + 1 .. movie_id_counter (snd (run lower rs s'))]
        = (movie_id_counter s + 1) # [movie_id_counter s' + 1 .. movie_id_counter (snd (run lower rs s'))]"
      by (simp add: upto_rec1)
    with a Cons.IH [of s'] show ?thesis
      unfolding tr fin created_ids_append by simp
  next
    assume a: "\<not> successful_create (r, out) \<and> movie_id_counter s' = movie_id_counter s
            \<and> subseq (ids s') (ids s) \<and> created_ids [(r, out)] = []"
    with Cons.IH [of s'] show ?thesis
      unfolding tr fin created_ids_append by simp
  qed
qed

lemma run_ids_subseq:
  "subseq (ids (snd (run lower rs s))) (ids s @ created_ids (fst (run lower rs s)))"
proof (induction rs arbitrary: s)
  case Nil
  then show ?case by simp
next
  case (Cons r rs)
  obtain out s' where h: "handle lower r s = (out, s')" by (cases "handle lower r s")
  have tr: "fst (run lower (r # rs) s) = [(r, out)] @ fst (run lower rs s')"
    and fin: "snd (run lower (r # rs) s) = snd (run lower rs s')"
    using h by (simp_all add: split_beta Let_def)
  have step: "subseq (ids s') (ids s @ created_ids [(r, out)])"
    using handle_effect [OF h] by auto
  have "subseq (ids (snd (run lower rs s'))) (ids s' @ created_ids (fst (run lower rs s')))"
    by (rule Cons.IH)
  also have "subseq (ids s' @ created_ids (fst (run lower rs s')))
      ((ids s @ created_ids [(r, out)]) @ created_ids (fst (run lower rs s')))"
    using step by (rule list_emb_append_mono) simp
  finally show ?case unfolding tr fin created_ids_append by simp
qed

subsection \<open>Filters\<close>

lemma title_filter_matches:
  "title_filter lower q ms = [m \<leftarrow> ms. matches_filter lower (Some q) (title m)]"
  by (simp add: title_filter_def ci_substring_def str_in_sublist)

lemma genre_filter_matches:
  "genre_filter lower q ms = [m \<leftarrow> ms. matches_filter lower (Some q) (genre m)]"
  by (simp add: genre_filter_def ci_substring_def str_in_sublist)

lemma ci_substring_empty: "lower [] = [] \<Longrightarrow> ci_substring lower [] field"
  by (simp add: ci_substring_def)

text \<open>
  The records left by the two comprehensions of \<^verbatim>\<open>get_movies\<close> are the records that match
  all provided filters, as long as an empty filter string matches everything (it does when
  \<open>lower\<close> leaves the empty string empty) or none is given.
\<close>

lemma get_movies_matches_all:
  assumes "lower [] = [] \<or> (title_q \<noteq> Some [] \<and> genre_q \<noteq> Some [])"
  shows "get_movies lower title_q genre_q s =
           (if [m \<leftarrow> movie_db s. matches_all lower title_q genre_q m] \<noteq> []
            then [m \<leftarrow> movie_db s. matches_all lower title_q genre_q m]
            else movie_db s)"
proof -
  have t: "(case title_q of
              Some q \<Rightarrow> if q \<noteq> [] then title_filter lower q ms else ms
            | None \<Rightarrow> ms) = [m \<leftarrow> ms. matches_filter lower title_q (title m)]" for ms
    using assms by (cases title_q) (auto simp: title_filter_matches ci_substring_empty)
  have g: "(case genre_q of
              Some q \<Rightarrow> if q \<noteq> [] then genre_filter lower q ms else ms
            | None \<Rightarrow> ms) = [m \<leftarrow> ms. matches_filter lower genre_q (genre m)]" for ms
    using assms by (cases genre_q) (auto simp: genre_filter_matches ci_substring_empty)
  have both: "[m \<leftarrow> [m \<leftarrow> movie_db s. matches_filter lower title_q (title m)].
                 matches_filter lower genre_q (genre m)]
              = [m \<leftarrow> movie_db s. matches_all lower title_q genre_q m]"
    by (simp add: matches_all_def conj_commute)
  show ?thesis
  proof (cases "truthy title_q \<or> truthy genre_q")
    case True
    then show ?thesis
      unfolding get_movies_def Let_def t g both by simp
  next
    case False
    then have "matches_all lower title_q genre_q m" for m
      using assms by (cases title_q; cases genre_q) (auto simp: matches_all_def ci_substring_empty)
    then have "[m \<leftarrow> movie_db s. matches_all lower title_q genre_q m] = movie_db s"
      by simp
    with False show ?thesis by (simp add: get_movies_def)
  qed
qed

subsection \<open>Stores with distinct ids\<close>

lemma store_inv_distinct: "store_inv s \<Longrightarrow> distinct (map id_no (movie_db s))"
  by (simp add: store_inv_def ids_def strict_sorted_iff)

lemma store_inv_positive: "store_inv s \<Longrightarrow> i \<in> set (ids s) \<Longrightarrow> 0 < i"
  by (simp add: store_inv_def)

lemma remove1_distinct_filter:
  "distinct (map f xs) \<Longrightarrow> x \<in> set xs \<Longrightarrow> remove1 x xs = [y \<leftarrow> xs. f y \<noteq> f x]"
proof (induction xs)
  case Nil
  then show ?case by simp
next
  case (Cons y ys)
  show ?case
  proof (cases "x = y")
    case True
    from Cons.prems have "f y \<notin> f ` set ys" by simp
    then have "\<forall>z \<in> set ys. f z \<noteq> f y" by (metis imageI)
    then have "[z \<leftarrow> ys. f z \<noteq> f y] = ys" by simp
    with True show ?thesis by simp
  next
    case False
    with Cons.prems have "x \<in> set ys" by simp
    moreover from Cons.prems have "f y \<notin> f ` set ys" by simp
    ultimately have "f y \<noteq> f x" by (metis imageI)
    with False Cons.IH Cons.prems \<open>x \<in> set ys\<close> show ?thesis by simp
  qed
qed

subsection \<open>The store of the example\<close>

lemma sample_store:
  "store_after ascii_lower [POST_movies dune, POST_movies up]
     = \<lparr>movie_db = [with_id 1 dune, with_id 2 up], movie_id_counter = 2\<rparr>"
  by (simp add: eval_defs)

section \<open>The claims\<close>

text \<open>
  C1. In the trace of any sequence of requests served from the empty store, every create
  that succeeds returns a record, and the id of that record is 1 plus the number of
  creates that succeeded before it in the trace, whatever other requests (updates, deletes,
  failed requests) came in between.
\<close>

theorem create_returns_next_id:
  assumes "fst (run lower rs init_state) = pre @ (POST_movies movie, Inr out) # post"
  shows "\<exists>new_movie. out = Record new_movie
           \<and> id_no new_movie = 1 + int (length (filter successful_create pre))"
proof -
  let ?rs1 = "map fst pre" and ?rs2 = "map fst post"
  let ?s1 = "snd (run lower ?rs1 init_state)"
  have "rs = map fst (fst (run lower rs init_state))" by (simp add: run_requests)
  with assms have rs: "rs = ?rs1 @ POST_movies movie # ?rs2" by simp
  have len: "length (fst (run lower ?rs1 init_state)) = length pre"
    by (metis length_map run_requests)
  have "fst (run lower rs init_state) =
      fst (run lower ?rs1 init_state) @ fst (run lower (POST_movies movie # ?rs2) ?s1)"
    by (subst rs) (simp only: run_append fst_conv)
  with assms len have pre: "fst (run lower ?rs1 init_state) = pre"
    and rest: "fst (run lower (POST_movies movie # ?rs2) ?s1) = (POST_movies movie, Inr out) # post"
    by simp_all
  from rest have out: "fst (handle lower (POST_movies movie) ?s1) = Inr out"
    by (simp add: split_beta Let_def)
  then have "out = Record (fst (create_movie movie ?s1))"
    by (auto simp: split_beta split: if_splits)
  moreover have "movie_id_counter ?s1 = int (length (filter successful_create pre))"
    using run_counter [of lower ?rs1 init_state] unfolding pre by (simp add: init_state_def)
  ultimately show ?thesis by (simp add: id_create)
qed

theorem create_returns_next_id_witness:
  "fst (run ascii_lower
          [POST_movies dune, POST_movies (dune\<lparr>playtime := 0\<rparr>), DELETE_movie 1, GET_movie 7,
           POST_movies up] init_state)
     = [(POST_movies dune, Inr (Record (with_id 1 dune))),
        (POST_movies (dune\<lparr>playtime := 0\<rparr>), Inl ValidationError),
        (DELETE_movie 1, Inr NoContent),
        (GET_movie 7, Inl NotFoundError)]
       @ (POST_movies up, Inr (Record (with_id 2 up))) # []
   \<and> (\<exists>new_movie. Record (with_id 2 up) = Record new_movie \<and> id_no new_movie =
        1 + int (length (filter successful_create [(POST_movies dune, Inr (Record (with_id 1 dune))),
        (POST_movies (dune\<lparr>playtime := 0\<rparr>), Inl ValidationError),
        (DELETE_movie 1, Inr NoContent),
        (GET_movie 7, Inl NotFoundError :: error + char response)])))"
proof -
  have h: "fst (run ascii_lower
          [POST_movies dune, POST_movies (dune\<lparr>playtime := 0\<rparr>), DELETE_movie 1, GET_movie 7,
           POST_movies up] init_state)
     = [(POST_movies dune, Inr (Record (with_id 1 dune))),
        (POST_movies (dune\<lparr>playtime := 0\<rparr>), Inl ValidationError),
        (DELETE_movie 1, Inr NoContent),
        (GET_movie 7, Inl NotFoundError)]
       @ (POST_movies up, Inr (Record (with_id 2 up))) # []"
    by (simp add: eval_defs)
  from h create_returns_next_id [OF h] show ?thesis by (rule conjI)
qed

text \<open>
  C2. After any sequence of requests served from the empty store: the ids of the records in
  the collection are pairwise distinct and increase strictly along the collection; the ids
  handed out by the successful creates increase strictly in the order of creation, so none
  is handed out twice, whether or not its record has been deleted meanwhile; and the ids of
  the collection, in the order of the collection, are a subsequence of the ids in the order
  of their creation, so the collection keeps the insertion order.
\<close>

theorem ids_unique_increasing_never_reused:
  "distinct (ids (store_after lower rs))
   \<and> sorted_wrt (<) (ids (store_after lower rs))
   \<and> sorted_wrt (<) (created_ids (fst (run lower rs init_state)))
   \<and> distinct (created_ids (fst (run lower rs init_state)))
   \<and> subseq (ids (store_after lower rs)) (created_ids (fst (run lower rs init_state)))"
proof -
  let ?created = "created_ids (fst (run lower rs init_state))"
  have c: "?created = [1 .. movie_id_counter (store_after lower rs)]"
    using run_created_ids [of lower rs init_state] by (simp add: store_after_def init_state_def)
  have sub: "subseq (ids (store_after lower rs)) ?created"
    using run_ids_subseq [of lower rs init_state]
    by (simp add: store_after_def ids_def init_state_def)
  have sc: "sorted_wrt (<) ?created" and dc: "distinct ?created"
    unfolding c by simp_all
  have si: "sorted_wrt (<) (ids (store_after lower rs))"
    using sub sc by (rule subseq_sorted_wrt)
  have "distinct (ids (store_after lower rs))"
    using si by (simp add: strict_sorted_iff)
  with si sc dc sub show ?thesis by simp
qed

theorem ids_unique_increasing_never_reused_witness:
  "ids (store_after ascii_lower [POST_movies dune, POST_movies up, DELETE_movie 1, POST_movies dune]) = [2, 3]
   \<and> created_ids (fst (run ascii_lower [POST_movies dune, POST_movies up, DELETE_movie 1, POST_movies dune] init_state)) = [1, 2, 3]
   \<and> subseq (ids (store_after ascii_lower [POST_movies dune, POST_movies up, DELETE_movie 1, POST_movies dune]))
        (created_ids (fst (run ascii_lower [POST_movies dune, POST_movies up, DELETE_movie 1, POST_movies dune] init_state)))"
proof -
  have a: "ids (store_after ascii_lower [POST_movies dune, POST_movies up, DELETE_movie 1, POST_movies dune]) = [2, 3]"
    by (simp add: eval_defs)
  have b: "created_ids (fst (run ascii_lower [POST_movies dune, POST_movies up, DELETE_movie 1, POST_movies dune] init_state)) = [1, 2, 3]"
    by (simp add: eval_defs)
  from ids_unique_increasing_never_reused
         [of ascii_lower "[POST_movies dune, POST_movies up, DELETE_movie 1, POST_movies dune]"]
  have "subseq (ids (store_after ascii_lower [POST_movies dune, POST_movies up, DELETE_movie 1, POST_movies dune]))
        (created_ids (fst (run ascii_lower [POST_movies dune, POST_movies up, DELETE_movie 1, POST_movies dune] init_state)))"
    by (elim conjE)
  with a b show ?thesis by (intro conjI)
qed

text \<open>
  C3. In every store and for every combination of title and genre filters (each absent or
  given): when no record matches all provided filters, the listing answers with the whole
  collection, unfiltered. This covers the case where one filter alone matches some record
  and the two together match none. (\<open>lower\<close> stands for Python's \<^verbatim>\<open>str.lower\<close>; like it,
  it leaves the empty string empty.)
\<close>

theorem list_falls_back_to_all:
  assumes "lower [] = []"
    and "[m \<leftarrow> movie_db s. matches_all lower title_q genre_q m] = []"
  shows "handle lower (GET_movies title_q genre_q) s = (Inr (Records (movie_db s)), s)"
  using assms by (simp add: get_movies_matches_all)

theorem list_falls_back_to_all_witness:
  "ascii_lower [] = []
   \<and> [m \<leftarrow> movie_db (store_after ascii_lower [POST_movies dune, POST_movies up]).
         matches_all ascii_lower (Some ''dune'') None m] \<noteq> []
   \<and> [m \<leftarrow> movie_db (store_after ascii_lower [POST_movies dune, POST_movies up]).
         matches_all ascii_lower (Some ''dune'') (Some ''ANIM'') m] = []
   \<and> handle ascii_lower (GET_movies (Some ''dune'') (Some ''ANIM''))
        (store_after ascii_lower [POST_movies dune, POST_movies up])
      = (Inr (Records [with_id 1 dune, with_id 2 up]),
         store_after ascii_lower [POST_movies dune, POST_movies up])"
proof -
  have h1: "ascii_lower [] = []" by (simp add: ascii_lower_def)
  have one: "[m \<leftarrow> movie_db (store_after ascii_lower [POST_movies dune, POST_movies up]).
         matches_all ascii_lower (Some ''dune'') None m] \<noteq> []"
    by (simp add: eval_defs matches_all_def ci_substring_def str_in_sublist [symmetric])
  have h2: "[m \<leftarrow> movie_db (store_after ascii_lower [POST_movies dune, POST_movies up]).
         matches_all ascii_lower (Some ''dune'') (Some ''ANIM'') m] = []"
    by (simp add: eval_defs matches_all_def ci_substring_def str_in_sublist [symmetric])
  from list_falls_back_to_all [OF h1 h2] h1 one h2 show ?thesis
    by (simp add: sample_store)
qed

text \<open>
  C4. In every store: the listing without filters answers with all records, in the order of
  the collection; and for filters that are absent or non-empty strings, when some record
  matches all provided filters, the listing answers with exactly the records that match
  all of them (each provided filter a case-insensitive substring of its field), in the
  order of the collection.
\<close>

theorem list_returns_matching_records:
  "handle lower (GET_movies None None) s = (Inr (Records (movie_db s)), s)
   \<and> (title_q \<noteq> Some [] \<and> genre_q \<noteq> Some []
        \<and> [m \<leftarrow> movie_db s. matches_all lower title_q genre_q m] \<noteq> []
      \<longrightarrow> handle lower (GET_movies title_q genre_q) s
            = (Inr (Records [m \<leftarrow> movie_db s. matches_all lower title_q genre_q m]), s))"
proof
  show "handle lower (GET_movies None None) s = (Inr (Records (movie_db s)), s)"
    by (simp add: get_movies_def)
next
  show "title_q \<noteq> Some [] \<and> genre_q \<noteq> Some []
        \<and> [m \<leftarrow> movie_db s. matches_all lower title_q genre_q m] \<noteq> []
      \<longrightarrow> handle lower (GET_movies title_q genre_q) s
            = (Inr (Records [m \<leftarrow> movie_db s. matches_all lower title_q genre_q m]), s)"
    by (simp add: get_movies_matches_all)
qed

theorem list_returns_matching_records_witness:
  "Some ''U'' \<noteq> Some [] \<and> Some ''FI'' \<noteq> Some []
   \<and> [m \<leftarrow> movie_db (store_after ascii_lower [POST_movies dune, POST_movies up]).
         matches_all ascii_lower (Some ''U'') (Some ''FI'') m] = [with_id 1 dune]
   \<and> handle ascii_lower (GET_movies (Some ''U'') (Some ''FI''))
        (store_after ascii_lower [POST_movies dune, POST_movies up])
      = (Inr (Records [with_id 1 dune]),
         store_after ascii_lower [POST_movies dune, POST_movies up])"
proof -
  have h: "[m \<leftarrow> movie_db (store_after ascii_lower [POST_movies dune, POST_movies up]).
         matches_all ascii_lower (Some ''U'') (Some ''FI'') m] = [with_id 1 dune]"
    by (simp add: eval_defs matches_all_def ci_substring_def str_in_sublist [symmetric])
  from list_returns_matching_records
         [of ascii_lower "store_after ascii_lower [POST_movies dune, POST_movies up]"
             "Some ''U''" "Some ''FI''"] h
  show ?thesis by simp
qed

text \<open>
  C5. For every body (title, playtime, genre) and every store: create fails with
  ValidationError exactly when playtime \<open>\<le> 0\<close>, or the title is empty, or the genre is
  shorter than 2; a failed create leaves the collection and the counter as they were; and
  a create of a valid body appends one record, with the given title, playtime and genre
  and the next id, and returns it.
\<close>

theorem create_validates:
  "(fst (handle lower (POST_movies movie) s) = Inl ValidationError
      \<longleftrightarrow> playtime movie \<le> 0 \<or> title movie = [] \<or> length (genre movie) < 2)
   \<and> (playtime movie \<le> 0 \<or> title movie = [] \<or> length (genre movie) < 2
      \<longrightarrow> handle lower (POST_movies movie) s = (Inl ValidationError, s))
   \<and> (\<not> (playtime movie \<le> 0 \<or> title movie = [] \<or> length (genre movie) < 2)
      \<longrightarrow> handle lower (POST_movies movie) s =
           (Inr (Record \<lparr>title = title movie, playtime = playtime movie, genre = genre movie,
                          id_no = movie_id_counter s + 1\<rparr>),
            \<lparr>movie_db = movie_db s @ [\<lparr>title = title movie, playtime = playtime movie,
                                       genre = genre movie, id_no = movie_id_counter s + 1\<rparr>],
             movie_id_counter = movie_id_counter s + 1\<rparr>))"
proof -
  have v: "valid_Movie movie \<longleftrightarrow>
      \<not> (playtime movie \<le> 0 \<or> title movie = [] \<or> length (genre movie) < 2)"
    by (cases "title movie") (auto simp: valid_Movie_def)
  show ?thesis
  proof (cases "valid_Movie movie")
    case True
    with v show ?thesis by (simp add: create_movie_def Let_def)
  next
    case False
    with v show ?thesis by simp
  qed
qed

theorem create_validates_witness:
  "playtime (dune\<lparr>playtime := 0\<rparr>) \<le> 0
   \<and> handle ascii_lower (POST_movies (dune\<lparr>playtime := 0\<rparr>)) init_state
       = (Inl ValidationError, init_state)
   \<and> \<not> (playtime dune \<le> 0 \<or> title dune = [] \<or> length (genre dune) < 2)
   \<and> handle ascii_lower (POST_movies dune) init_state
       = (Inr (Record (with_id 1 dune)),
          \<lparr>movie_db = [with_id 1 dune], movie_id_counter = 1\<rparr>)"
proof -
  have bad: "playtime (dune\<lparr>playtime := 0\<rparr>) \<le> 0" by simp
  have good: "\<not> (playtime dune \<le> 0 \<or> title dune = [] \<or> length (genre dune) < 2)"
    by (simp add: dune_def)
  from create_validates [of ascii_lower "dune\<lparr>playtime := 0\<rparr>" init_state] bad
  have a: "handle ascii_lower (POST_movies (dune\<lparr>playtime := 0\<rparr>)) init_state
       = (Inl ValidationError, init_state)"
    by blast
  from create_validates [of ascii_lower dune init_state] good
  have "handle ascii_lower (POST_movies dune) init_state =
           (Inr (Record \<lparr>title = title dune, playtime = playtime dune, genre = genre dune,
                          id_no = movie_id_counter (init_state :: char state) + 1\<rparr>),
            \<lparr>movie_db = movie_db init_state @ [\<lparr>title = title dune, playtime = playtime dune,
                                       genre = genre dune, id_no = movie_id_counter (init_state :: char state) + 1\<rparr>],
             movie_id_counter = movie_id_counter (init_state :: char state) + 1\<rparr>)"
    by blast
  then have b: "handle ascii_lower (POST_movies dune) init_state
       = (Inr (Record (with_id 1 dune)),
          \<lparr>movie_db = [with_id 1 dune], movie_id_counter = 1\<rparr>)"
    by (simp add: init_state_def with_id_def)
  from bad a good b show ?thesis by (intro conjI)
qed

text \<open>
  C6. In every store and for every id held by no record of the collection: the functions
  behind getById, update (given a body that passes validation) and delete each fail with
  NotFoundError, whatever the id, and the request leaves the collection and the counter
  exactly as they were. Served as a request, the failure is that NotFoundError when the id
  is positive; the routes declare the id with \<^verbatim>\<open>Path(..., gt=0)\<close>, so a request with an id
  that is not positive is refused before the function runs (a validation error), and the
  store is as untouched.
\<close>

theorem absent_id_not_found:
  assumes "movie_id \<notin> set (ids s)"
    and "0 < playtime movie_update" and "title movie_update \<noteq> []"
    and "2 \<le> length (genre movie_update)"
  shows "get_movie_by_id movie_id s = Inl NotFoundError
     \<and> update_movie movie_update movie_id s = Inl NotFoundError
     \<and> delete_movie movie_id s = Inl NotFoundError
     \<and> snd (handle lower (GET_movie movie_id) s) = s
     \<and> snd (handle lower (PUT_movie movie_id movie_update) s) = s
     \<and> snd (handle lower (DELETE_movie movie_id) s) = s
     \<and> (0 < movie_id \<longrightarrow>
          handle lower (GET_movie movie_id) s = (Inl NotFoundError, s)
          \<and> handle lower (PUT_movie movie_id movie_update) s = (Inl NotFoundError, s)
          \<and> handle lower (DELETE_movie movie_id) s = (Inl NotFoundError, s))
     \<and> (movie_id \<le> 0 \<longrightarrow>
          handle lower (GET_movie movie_id) s = (Inl ValidationError, s)
          \<and> handle lower (PUT_movie movie_id movie_update) s = (Inl ValidationError, s)
          \<and> handle lower (DELETE_movie movie_id) s = (Inl ValidationError, s))"
proof -
  from assms(1) have f: "find (\<lambda>m. id_no m = movie_id) (movie_db s) = None"
    by (simp add: find_id_None ids_def)
  then have fi: "first_index (\<lambda>m. id_no m = movie_id) (movie_db s) = None"
    by (simp add: find_None_first_index)
  from assms(2-4) have v: "valid_Movie movie_update"
    by (cases "title movie_update") (auto simp: valid_Movie_def)
  have g: "get_movie_by_id movie_id s = Inl NotFoundError"
    by (simp add: f get_movie_by_id_def)
  have u: "update_movie movie_update movie_id s = Inl NotFoundError"
    by (simp add: fi update_movie_def)
  have d: "delete_movie movie_id s = Inl NotFoundError"
    by (simp add: f delete_movie_def)
  show ?thesis
  proof (cases "0 < movie_id")
    case True
    then have "valid_movie_id movie_id" by (simp add: valid_movie_id_def)
    with True g u d v show ?thesis by simp
  next
    case False
    then have "\<not> valid_movie_id movie_id" by (simp add: valid_movie_id_def)
    with False g u d show ?thesis by simp
  qed
qed

theorem absent_id_not_found_witness:
  "7 \<notin> set (ids (store_after ascii_lower [POST_movies dune, POST_movies up]))
   \<and> 0 \<notin> set (ids (store_after ascii_lower [POST_movies dune, POST_movies up]))
   \<and> 0 < playtime dune \<and> title dune \<noteq> [] \<and> 2 \<le> length (genre dune)
   \<and> get_movie_by_id 7 (store_after ascii_lower [POST_movies dune, POST_movies up])
       = Inl NotFoundError
   \<and> update_movie dune 7 (store_after ascii_lower [POST_movies dune, POST_movies up])
       = Inl NotFoundError
   \<and> delete_movie 7 (store_after ascii_lower [POST_movies dune, POST_movies up])
       = Inl NotFoundError
   \<and> handle ascii_lower (GET_movie 7) (store_after ascii_lower [POST_movies dune, POST_movies up])
       = (Inl NotFoundError, store_after ascii_lower [POST_movies dune, POST_movies up])
   \<and> handle ascii_lower (PUT_movie 7 dune) (store_after ascii_lower [POST_movies dune, POST_movies up])
       = (Inl NotFoundError, store_after ascii_lower [POST_movies dune, POST_movies up])
   \<and> handle ascii_lower (DELETE_movie 7) (store_after ascii_lower [POST_movies dune, POST_movies up])
       = (Inl NotFoundError, store_after ascii_lower [POST_movies dune, POST_movies up])
   \<and> get_movie_by_id 0 (store_after ascii_lower [POST_movies dune, POST_movies up])
       = Inl NotFoundError
   \<and> update_movie dune 0 (store_after ascii_lower [POST_movies dune, POST_movies up])
       = Inl NotFoundError
   \<and> delete_movie 0 (store_after ascii_lower [POST_movies dune, POST_movies up])
       = Inl NotFoundError
   \<and> handle ascii_lower (GET_movie 0) (store_after ascii_lower [POST_movies dune, POST_movies up])
       = (Inl ValidationError, store_after ascii_lower [POST_movies dune, POST_movies up])
   \<and> handle ascii_lower (PUT_movie 0 dune) (store_after ascii_lower [POST_movies dune, POST_movies up])
       = (Inl ValidationError, store_after ascii_lower [POST_movies dune, POST_movies up])
   \<and> handle ascii_lower (DELETE_movie 0) (store_after ascii_lower [POST_movies dune, POST_movies up])
       = (Inl ValidationError, store_after ascii_lower [POST_movies dune, POST_movies up])"
proof -
  have h7: "7 \<notin> set (ids (store_after ascii_lower [POST_movies dune, POST_movies up]))"
    and h0: "0 \<notin> set (ids (store_after ascii_lower [POST_movies dune, POST_movies up]))"
    by (simp_all add: sample_store ids_def with_id_def)
  have h3: "0 < playtime dune" and h4: "title dune \<noteq> []" and h5: "2 \<le> length (genre dune)"
    by (simp_all add: dune_def)
  have p7: "(0::int) < 7" and p0: "(0::int) \<le> 0" by simp_all
  from absent_id_not_found [where lower = ascii_lower, OF h7 h3 h4 h5] p7
       absent_id_not_found [where lower = ascii_lower, OF h0 h3 h4 h5] p0
       h7 h0 h3 h4 h5
  show ?thesis by blast
qed

text \<open>
  C7. In every store (the store after any sequence of requests) that holds a record with the
  given id, and for every body with playtime \<open>> 0\<close>, a non-empty title and a genre of length
  at least 2: update puts, at the position of the one record with that id, the record made
  of the given id and the title, playtime and genre of the body, leaves every other
  position as it was, and returns that record.
\<close>

theorem update_replaces_in_place:
  assumes s: "s = store_after lower rs"
    and u: "updated_movie = \<lparr>title = title movie_update, playtime = playtime movie_update,
                             genre = genre movie_update, id_no = movie_id\<rparr>"
    and held: "movie_id \<in> set (ids s)"
    and "0 < playtime movie_update" and "title movie_update \<noteq> []"
    and "2 \<le> length (genre movie_update)"
  shows "\<exists>i. i < length (movie_db s) \<and> id_no (movie_db s ! i) = movie_id
           \<and> (\<forall>j < length (movie_db s). id_no (movie_db s ! j) = movie_id \<longrightarrow> j = i)
           \<and> handle lower (PUT_movie movie_id movie_update) s
               = (Inr (Record updated_movie), s\<lparr>movie_db := (movie_db s)[i := updated_movie]\<rparr>)"
proof -
  have inv: "store_inv s" unfolding s by (rule store_after_inv)
  from assms(4-6) have v: "valid_Movie movie_update"
    by (cases "title movie_update") (auto simp: valid_Movie_def)
  from store_inv_positive [OF inv held] have p: "valid_movie_id movie_id"
    by (simp add: valid_movie_id_def)
  from held have "find (\<lambda>m. id_no m = movie_id) (movie_db s) \<noteq> None"
    by (simp add: find_id_None ids_def)
  then obtain i where i: "first_index (\<lambda>m. id_no m = movie_id) (movie_db s) = Some i"
    by (auto simp: find_None_first_index [symmetric])
  from first_index_Some [OF i] have lt: "i < length (movie_db s)"
    and idi: "id_no (movie_db s ! i) = movie_id" by auto
  have uniq: "j = i" if "j < length (movie_db s)" "id_no (movie_db s ! j) = movie_id" for j
  proof -
    from that idi lt have "map id_no (movie_db s) ! j = map id_no (movie_db s) ! i" by simp
    moreover have "j < length (map id_no (movie_db s))" "i < length (map id_no (movie_db s))"
      using that(1) lt by simp_all
    ultimately show ?thesis
      using store_inv_distinct [OF inv] by (simp only: nth_eq_iff_index_eq)
  qed
  have "handle lower (PUT_movie movie_id movie_update) s
      = (Inr (Record updated_movie), s\<lparr>movie_db := (movie_db s)[i := updated_movie]\<rparr>)"
    by (simp add: v p i u update_movie_def Let_def)
  with lt idi uniq show ?thesis by blast
qed

theorem update_replaces_in_place_witness:
  "2 \<in> set (ids (store_after ascii_lower [POST_movies dune, POST_movies up]))
   \<and> 0 < playtime dune \<and> title dune \<noteq> [] \<and> 2 \<le> length (genre dune)
   \<and> handle ascii_lower (PUT_movie 2 dune) (store_after ascii_lower [POST_movies dune, POST_movies up])
       = (Inr (Record (with_id 2 dune)),
          \<lparr>movie_db = [with_id 1 dune, with_id 2 dune], movie_id_counter = 2\<rparr>)"
proof -
  have h1: "2 \<in> set (ids (store_after ascii_lower [POST_movies dune, POST_movies up]))"
    by (simp add: sample_store ids_def with_id_def)
  have h3: "0 < playtime dune" and h4: "title dune \<noteq> []" and h5: "2 \<le> length (genre dune)"
    by (simp_all add: dune_def)
  from update_replaces_in_place [OF refl refl h1 h3 h4 h5]
  obtain i where i: "id_no (movie_db (store_after ascii_lower [POST_movies dune, POST_movies up]) ! i) = 2"
    "i < length (movie_db (store_after ascii_lower [POST_movies dune, POST_movies up]))"
    and r: "handle ascii_lower (PUT_movie 2 dune) (store_after ascii_lower [POST_movies dune, POST_movies up])
       = (Inr (Record \<lparr>title = title dune, playtime = playtime dune, genre = genre dune, id_no = 2\<rparr>),
         (store_after ascii_lower [POST_movies dune, POST_movies up])
           \<lparr>movie_db := (movie_db (store_after ascii_lower [POST_movies dune, POST_movies up]))
               [i := \<lparr>title = title dune, playtime = playtime dune, genre = genre dune, id_no = 2\<rparr>]\<rparr>)"
    by blast
  from i have "i = 1"
    by (cases i) (simp_all add: sample_store with_id_def)
  with r have "handle ascii_lower (PUT_movie 2 dune) (store_after ascii_lower [POST_movies dune, POST_movies up])
       = (Inr (Record (with_id 2 dune)),
          \<lparr>movie_db = [with_id 1 dune, with_id 2 dune], movie_id_counter = 2\<rparr>)"
    by (simp add: sample_store with_id_def)
  with h1 h3 h4 h5 show ?thesis by (intro conjI)
qed

text \<open>
  C8. In every store (the store after any sequence of requests) that holds a record with the
  given id: delete succeeds; the collection afterwards is the collection before without
  the record of that id, every other record still there and in its place, so its length is
  one less; and a getById for that id on the store afterwards fails with NotFoundError.
\<close>

theorem delete_removes_one:
  assumes s: "s = store_after lower rs"
    and held: "movie_id \<in> set (ids s)"
  shows "\<exists>s'. handle lower (DELETE_movie movie_id) s = (Inr NoContent, s')
           \<and> movie_db s' = [m \<leftarrow> movie_db s. id_no m \<noteq> movie_id]
           \<and> length (movie_db s') + 1 = length (movie_db s)
           \<and> movie_id_counter s' = movie_id_counter s
           \<and> handle lower (GET_movie movie_id) s' = (Inl NotFoundError, s')"
proof -
  have inv: "store_inv s" unfolding s by (rule store_after_inv)
  from store_inv_positive [OF inv held] have p: "valid_movie_id movie_id"
    by (simp add: valid_movie_id_def)
  from held obtain m where f: "find (\<lambda>m. id_no m = movie_id) (movie_db s) = Some m"
    using find_id_None [of movie_id "movie_db s"] by (auto simp: ids_def)
  from find_id_Some [OF f] have m: "m \<in> set (movie_db s)" "id_no m = movie_id" by auto
  let ?s' = "s\<lparr>movie_db := remove1 m (movie_db s)\<rparr>"
  have del: "handle lower (DELETE_movie movie_id) s = (Inr NoContent, ?s')"
    by (simp add: p f delete_movie_def)
  have db: "movie_db ?s' = [x \<leftarrow> movie_db s. id_no x \<noteq> movie_id]"
    using remove1_distinct_filter [OF store_inv_distinct [OF inv] m(1)] m(2) by simp
  have len: "length (movie_db ?s') + 1 = length (movie_db s)"
  proof -
    from m(1) have "0 < length (movie_db s)" by (cases "movie_db s") auto
    with m(1) show ?thesis by (simp add: length_remove1)
  qed
  have "movie_id \<notin> set (map id_no (movie_db ?s'))"
    unfolding db by auto
  then have "find (\<lambda>m. id_no m = movie_id) (movie_db ?s') = None"
    by (rule find_id_None [THEN iffD2])
  then have get: "handle lower (GET_movie movie_id) ?s' = (Inl NotFoundError, ?s')"
    by (simp add: p get_movie_by_id_def)
  from del db len get show ?thesis by (intro exI [of _ ?s']) simp
qed

theorem delete_removes_one_witness:
  "1 \<in> set (ids (store_after ascii_lower [POST_movies dune, POST_movies up]))
   \<and> handle ascii_lower (DELETE_movie 1) (store_after ascii_lower [POST_movies dune, POST_movies up])
       = (Inr NoContent, \<lparr>movie_db = [with_id 2 up], movie_id_counter = 2\<rparr>)
   \<and> handle ascii_lower (GET_movie 1) \<lparr>movie_db = [with_id 2 up], movie_id_counter = 2\<rparr>
       = (Inl NotFoundError, \<lparr>movie_db = [with_id 2 up], movie_id_counter = 2\<rparr>)"
proof -
  have h1: "1 \<in> set (ids (store_after ascii_lower [POST_movies dune, POST_movies up]))"
    by (simp add: sample_store ids_def with_id_def)
  from delete_removes_one [OF refl h1]
  obtain s' where d: "handle ascii_lower (DELETE_movie 1) (store_after ascii_lower [POST_movies dune, POST_movies up])
       = (Inr NoContent, s')"
    and db: "movie_db s' = [m \<leftarrow> movie_db (store_after ascii_lower [POST_movies dune, POST_movies up]). id_no m \<noteq> 1]"
    and c: "movie_id_counter s' = movie_id_counter (store_after ascii_lower [POST_movies dune, POST_movies up])"
    and g: "handle ascii_lower (GET_movie 1) s' = (Inl NotFoundError, s')"
    by blast
  from db c have "s' = \<lparr>movie_db = [with_id 2 up], movie_id_counter = 2\<rparr>"
    by (cases s') (simp add: sample_store with_id_def)
  with h1 d g show ?thesis by simp
qed

text \<open>
  C9. For every store and every combination of title and genre filters, the listing
  succeeds, and the sequence it returns is empty exactly when the collection is empty: on a
  non-empty store it is never empty.
\<close>

theorem list_empty_only_for_empty_store:
  "\<exists>out. handle lower (GET_movies title_q genre_q) s = (Inr (Records out), s)
         \<and> (out = [] \<longleftrightarrow> movie_db s = [])"
proof -
  have "get_movies lower title_q genre_q s = [] \<longleftrightarrow> movie_db s = []"
    by (cases title_q; cases genre_q)
       (auto simp: get_movies_def Let_def title_filter_def genre_filter_def)
  then show ?thesis by simp
qed

theorem list_empty_only_for_empty_store_witness:
  "handle ascii_lower (GET_movies None (Some ''zz''))
        (store_after ascii_lower [POST_movies dune, POST_movies up])
      = (Inr (Records [with_id 1 dune, with_id 2 up]),
         store_after ascii_lower [POST_movies dune, POST_movies up])
   \<and> handle ascii_lower (GET_movies None (Some ''zz'')) init_state
      = (Inr (Records []), init_state)"
proof -
  from list_empty_only_for_empty_store
         [of ascii_lower None "Some ''zz''" "store_after ascii_lower [POST_movies dune, POST_movies up]"]
  have a: "handle ascii_lower (GET_movies None (Some ''zz''))
        (store_after ascii_lower [POST_movies dune, POST_movies up])
      = (Inr (Records [with_id 1 dune, with_id 2 up]),
         store_after ascii_lower [POST_movies dune, POST_movies up])"
    by (simp add: eval_defs)
  from list_empty_only_for_empty_store [of ascii_lower None "Some ''zz''" init_state]
  have b: "handle ascii_lower (GET_movies None (Some ''zz'')) init_state
      = (Inr (Records []), init_state)"
    by (simp add: init_state_def)
  from a b show ?thesis by (rule conjI)
qed

end
